theory Spec2Isabelle
  imports Complex_Main "HOL-Library.Word" "HOL-Library.AList" "HOL-Library.DAList"
begin

section \<open>Orders and trades (package types)\<close>

text \<open>
  Order identifiers are Go \<open>uint64\<close> values. Prices are Go \<open>float64\<close> values; the model
  reads a finite, non-NaN float as the real number it denotes, and \<open>MaxFloat64\<close> is the
  largest of them (\<open>math.MaxFloat64\<close>). Sizes are Go \<open>int\<close> values; the engine only
  subtracts a fill from sizes it is not larger than, so they are read as integers.
  \<open>time.Time\<close> stamps are opaque: an order carries its stamp as a number and a trade's
  stamp (the wall clock at creation) is left out.
\<close>

type_synonym uint64 = "64 word"

datatype OrderType =
  NoActionOrder | MarketOrder | LimitOrder | CancelOrder | StopMarketOrder | StopLimitOrder

datatype SideType = NoActionSide | Buy | Sell

record Order =
  ID :: uint64
  UserID :: string
  Symbol :: string
  OrderType :: OrderType
  Side :: SideType
  Price :: real
  StopPrice :: real
  Size :: int
  TimeStamp :: nat

record Trade =
  TradeID :: uint64
  BuyOrderID :: uint64
  SellOrderID :: uint64
  Price :: real
  Size :: int

definition MaxFloat64 :: real where
  "MaxFloat64 = 2 ^ 1024 - 2 ^ 971"


section \<open>The order book (package matching, OrderBook)\<close>

text \<open>
  Each side is a Go map from price to the slice of orders resting at that price. A map has
  one entry per key, which the type of association lists with distinct keys expresses; the
  order of the entries stands for one iteration order of the map. Orders are held by value:
  where the engine writes through an order pointer, the model writes the order back to the
  place the pointer came from.
\<close>

type_synonym bookSide = "(real, Order list) alist"

record OrderBook =
  bids :: bookSide
  asks :: bookSide

definition NewOrderBook :: OrderBook where
  "NewOrderBook = \<lparr>bids = DAList.empty, asks = DAList.empty\<rparr>"

text \<open>\<open>bookSide[priceLevel]\<close>: a missing key reads as the nil slice.\<close>

definition level :: "bookSide \<Rightarrow> real \<Rightarrow> Order list" where
  "level bookSide priceLevel =
     (case DAList.lookup bookSide priceLevel of None \<Rightarrow> [] | Some orderBlock \<Rightarrow> orderBlock)"

text \<open>The inner and the outer loop of \<open>findOrderInBookSide\<close>; \<open>None\<close> is its \<open>ok = false\<close>.\<close>

fun findInBlock :: "Order list \<Rightarrow> uint64 \<Rightarrow> nat \<Rightarrow> (Order \<times> nat) option" where
  "findInBlock [] orderId i = None"
| "findInBlock (ord # rest) orderId i =
     (if ID ord = orderId then Some (ord, i) else findInBlock rest orderId (Suc i))"

fun findInLevels :: "(real \<times> Order list) list \<Rightarrow> uint64 \<Rightarrow> (Order \<times> real \<times> nat) option" where
  "findInLevels [] orderId = None"
| "findInLevels ((priceLevel, orderBlock) # rest) orderId =
     (case findInBlock orderBlock orderId 0 of
        Some (ord, i) \<Rightarrow> Some (ord, priceLevel, i)
      | None \<Rightarrow> findInLevels rest orderId)"

definition findOrderInBookSide :: "bookSide \<Rightarrow> uint64 \<Rightarrow> (Order \<times> real \<times> nat) option" where
  "findOrderInBookSide bookSide orderId = findInLevels (DAList.impl_of bookSide) orderId"

definition SearchById :: "OrderBook \<Rightarrow> uint64 \<Rightarrow> Order option" where
  "SearchById orderBook orderId =
     (case findOrderInBookSide (bids orderBook) orderId of
        Some (foundOrder, _) \<Rightarrow> Some foundOrder
      | None \<Rightarrow>
          (case findOrderInBookSide (asks orderBook) orderId of
             Some (foundOrder, _) \<Rightarrow> Some foundOrder
           | None \<Rightarrow> None))"

definition GetBestBid :: "OrderBook \<Rightarrow> real \<times> Order list" where
  "GetBestBid orderBook =
     (if DAList.impl_of (bids orderBook) = [] then (0, [])
      else
        let max = fold (\<lambda>priceLevel max. if priceLevel > max then priceLevel else max)
                    (map fst (DAList.impl_of (bids orderBook))) 0
        in (max, level (bids orderBook) max))"

definition GetBestAsk :: "OrderBook \<Rightarrow> real \<times> Order list" where
  "GetBestAsk orderBook =
     (if DAList.impl_of (asks orderBook) = [] then (0, [])
      else
        let min = fold (\<lambda>priceLevel min. if priceLevel < min then priceLevel else min)
                    (map fst (DAList.impl_of (asks orderBook))) MaxFloat64
        in (min, level (asks orderBook) min))"

text \<open>
  The body shared by \<open>DeleteBidOrder\<close> and \<open>DeleteAskOrder\<close>: find the order, cut it out
  of its block, store the block, and drop the price level when the block is empty.
\<close>

definition deleteFromSide :: "bookSide \<Rightarrow> uint64 \<Rightarrow> bookSide \<times> bool" where
  "deleteFromSide bookSide orderId =
     (case findOrderInBookSide bookSide orderId of
        None \<Rightarrow> (bookSide, False)
      | Some (_, priceLevel, index) \<Rightarrow>
          let block = level bookSide priceLevel;
              block = take index block @ drop (index + 1) block;
              bookSide = DAList.update priceLevel block bookSide;
              bookSide = (if length block = 0 then DAList.delete priceLevel bookSide else bookSide)
          in (bookSide, True))"

definition DeleteBidOrder :: "OrderBook \<Rightarrow> uint64 \<Rightarrow> OrderBook \<times> bool" where
  "DeleteBidOrder orderBook orderId =
     (case deleteFromSide (bids orderBook) orderId of
        (bookSide, ok) \<Rightarrow> (orderBook\<lparr>bids := bookSide\<rparr>, ok))"

definition DeleteAskOrder :: "OrderBook \<Rightarrow> uint64 \<Rightarrow> OrderBook \<times> bool" where
  "DeleteAskOrder orderBook orderId =
     (case deleteFromSide (asks orderBook) orderId of
        (bookSide, ok) \<Rightarrow> (orderBook\<lparr>asks := bookSide\<rparr>, ok))"

text \<open>\<open>DeleteBidOrder(orderId) || DeleteAskOrder(orderId)\<close>: the asks are tried only when
  no bid was deleted.\<close>

definition DeleteOrderById :: "OrderBook \<Rightarrow> uint64 \<Rightarrow> OrderBook \<times> bool" where
  "DeleteOrderById orderBook orderId =
     (case DeleteBidOrder orderBook orderId of
        (orderBook', True) \<Rightarrow> (orderBook', True)
      | (orderBook', False) \<Rightarrow> DeleteAskOrder orderBook' orderId)"

definition addToSide :: "bookSide \<Rightarrow> Order \<Rightarrow> bookSide" where
  "addToSide bookSide newOrder =
     (let block = level bookSide (Order.Price newOrder);
          block = block @ [newOrder]
      in DAList.update (Order.Price newOrder) block bookSide)"

definition AddBidOrder :: "OrderBook \<Rightarrow> Order \<Rightarrow> OrderBook" where
  "AddBidOrder orderBook newOrder = orderBook\<lparr>bids := addToSide (bids orderBook) newOrder\<rparr>"

definition AddAskOrder :: "OrderBook \<Rightarrow> Order \<Rightarrow> OrderBook" where
  "AddAskOrder orderBook newOrder = orderBook\<lparr>asks := addToSide (asks orderBook) newOrder\<rparr>"

section \<open>Stores (package storage)\<close>

datatype error = OrderNotFound uint64 | BackendError string

subsection \<open>The in-memory order store with FIFO eviction\<close>

text \<open>\<open>NewInMemoryOrderStore\<close> allocates a slice of capacity \<open>maxSize\<close>, which panics for a
  negative capacity, so every store has a natural \<open>maxSize\<close>.\<close>

record InMemoryOrderStore =
  orders :: "uint64 \<rightharpoonup> Order"
  orderIDs :: "uint64 list"
  maxSize :: nat

definition NewInMemoryOrderStore :: "nat \<Rightarrow> InMemoryOrderStore" where
  "NewInMemoryOrderStore capacity = \<lparr>orders = Map.empty, orderIDs = [], maxSize = capacity\<rparr>"

definition InMemoryOrderStore_Save :: "InMemoryOrderStore \<Rightarrow> Order \<Rightarrow> InMemoryOrderStore \<times> error option" where
  "InMemoryOrderStore_Save s ord =
     (let s = (if orders s (ID ord) = None then
                 (let s = s\<lparr>orderIDs := orderIDs s @ [ID ord]\<rparr> in
                  if length (orderIDs s) > InMemoryOrderStore.maxSize s then
                    (let oldestID = hd (orderIDs s) in
                     s\<lparr>orders := (orders s)(oldestID := None), orderIDs := tl (orderIDs s)\<rparr>)
                  else s)
               else s)
      in (s\<lparr>orders := (orders s)(ID ord \<mapsto> ord)\<rparr>, None))"

definition InMemoryOrderStore_Get :: "InMemoryOrderStore \<Rightarrow> uint64 \<Rightarrow> Order option \<times> error option" where
  "InMemoryOrderStore_Get s orderID =
     (case orders s orderID of
        None \<Rightarrow> (None, Some (OrderNotFound orderID))
      | Some ord \<Rightarrow> (Some ord, None))"

definition InMemoryOrderStore_Remove :: "InMemoryOrderStore \<Rightarrow> uint64 \<Rightarrow> InMemoryOrderStore \<times> error option" where
  "InMemoryOrderStore_Remove s orderID =
     (s\<lparr>orders := (orders s)(orderID := None), orderIDs := remove1 orderID (orderIDs s)\<rparr>, None)"

definition InMemoryOrderStore_Update :: "InMemoryOrderStore \<Rightarrow> Order \<Rightarrow> InMemoryOrderStore \<times> error option" where
  "InMemoryOrderStore_Update s ord =
     (if orders s (ID ord) = None then (s, Some (OrderNotFound (ID ord)))
      else (s\<lparr>orders := (orders s)(ID ord \<mapsto> ord)\<rparr>, None))"

subsection \<open>The in-memory and the file trade store\<close>

record InMemoryTradeStore =
  trades :: "Trade list"
  maxSize :: nat

definition NewInMemoryTradeStore :: "nat \<Rightarrow> InMemoryTradeStore" where
  "NewInMemoryTradeStore capacity = \<lparr>trades = [], maxSize = capacity\<rparr>"

definition trim :: "InMemoryTradeStore \<Rightarrow> InMemoryTradeStore" where
  "trim s =
     (if length (trades s) > InMemoryTradeStore.maxSize s
      then s\<lparr>trades := drop (length (trades s) - InMemoryTradeStore.maxSize s) (trades s)\<rparr>
      else s)"

definition InMemoryTradeStore_Save :: "InMemoryTradeStore \<Rightarrow> Trade \<Rightarrow> InMemoryTradeStore \<times> error option" where
  "InMemoryTradeStore_Save s trade = (trim (s\<lparr>trades := trades s @ [trade]\<rparr>), None)"

definition InMemoryTradeStore_SaveBatch :: "InMemoryTradeStore \<Rightarrow> Trade list \<Rightarrow> InMemoryTradeStore \<times> error option" where
  "InMemoryTradeStore_SaveBatch s ts = (trim (s\<lparr>trades := trades s @ ts\<rparr>), None)"

definition InMemoryTradeStore_GetRecent :: "InMemoryTradeStore \<Rightarrow> int \<Rightarrow> Trade list \<times> error option" where
  "InMemoryTradeStore_GetRecent s limit =
     (let limit = (if limit \<le> 0 \<or> limit > int (length (trades s)) then int (length (trades s)) else limit);
          start = length (trades s) - nat limit
      in (drop start (trades s), None))"

text \<open>The file store appends every trade to its log and has no read support.\<close>

datatype TradeStore = MemoryStore InMemoryTradeStore | FileStore "Trade list"

fun TradeStore_Save :: "TradeStore \<Rightarrow> Trade \<Rightarrow> TradeStore \<times> error option" where
  "TradeStore_Save (MemoryStore s) trade =
     (case InMemoryTradeStore_Save s trade of (s', err) \<Rightarrow> (MemoryStore s', err))"
| "TradeStore_Save (FileStore written) trade = (FileStore (written @ [trade]), None)"

fun TradeStore_SaveBatch :: "TradeStore \<Rightarrow> Trade list \<Rightarrow> TradeStore \<times> error option" where
  "TradeStore_SaveBatch (MemoryStore s) ts =
     (case InMemoryTradeStore_SaveBatch s ts of (s', err) \<Rightarrow> (MemoryStore s', err))"
| "TradeStore_SaveBatch (FileStore written) ts = (FileStore (written @ ts), None)"

fun TradeStore_GetRecent :: "TradeStore \<Rightarrow> int \<Rightarrow> Trade list \<times> error option" where
  "TradeStore_GetRecent (MemoryStore s) limit = InMemoryTradeStore_GetRecent s limit"
| "TradeStore_GetRecent (FileStore written) limit = ([], None)"

subsection \<open>Composite stores\<close>

text \<open>
  A composite holds a slice of stores behind one interface; the interface method is the
  parameter of each operation here. Every write method is the same loop:
  call the method on each store in order and keep the last error that is not nil.
\<close>

fun writeAll :: "('s \<Rightarrow> 's \<times> error option) \<Rightarrow> 's list \<Rightarrow> error option \<Rightarrow> 's list \<times> error option" where
  "writeAll call [] lastErr = ([], lastErr)"
| "writeAll call (store # stores) lastErr =
     (case call store of
        (store', err) \<Rightarrow>
          (case writeAll call stores (if err \<noteq> None then err else lastErr) of
             (stores', result) \<Rightarrow> (store' # stores', result)))"

definition CompositeOrderStore_Save ::
  "('s \<Rightarrow> Order \<Rightarrow> 's \<times> error option) \<Rightarrow> 's list \<Rightarrow> Order \<Rightarrow> 's list \<times> error option" where
  "CompositeOrderStore_Save save stores ord = writeAll (\<lambda>store. save store ord) stores None"

definition CompositeOrderStore_Remove ::
  "('s \<Rightarrow> uint64 \<Rightarrow> 's \<times> error option) \<Rightarrow> 's list \<Rightarrow> uint64 \<Rightarrow> 's list \<times> error option" where
  "CompositeOrderStore_Remove remove stores orderID =
     writeAll (\<lambda>store. remove store orderID) stores None"

definition CompositeOrderStore_Update ::
  "('s \<Rightarrow> Order \<Rightarrow> 's \<times> error option) \<Rightarrow> 's list \<Rightarrow> Order \<Rightarrow> 's list \<times> error option" where
  "CompositeOrderStore_Update update stores ord = writeAll (\<lambda>store. update store ord) stores None"

definition CompositeTradeStore_Save ::
  "('s \<Rightarrow> Trade \<Rightarrow> 's \<times> error option) \<Rightarrow> 's list \<Rightarrow> Trade \<Rightarrow> 's list \<times> error option" where
  "CompositeTradeStore_Save save stores trade = writeAll (\<lambda>store. save store trade) stores None"

definition CompositeTradeStore_SaveBatch ::
  "('s \<Rightarrow> Trade list \<Rightarrow> 's \<times> error option) \<Rightarrow> 's list \<Rightarrow> Trade list \<Rightarrow> 's list \<times> error option" where
  "CompositeTradeStore_SaveBatch saveBatch stores ts =
     writeAll (\<lambda>store. saveBatch store ts) stores None"

fun CompositeOrderStore_Get ::
  "('s \<Rightarrow> uint64 \<Rightarrow> Order option \<times> error option) \<Rightarrow> 's list \<Rightarrow> uint64 \<Rightarrow> Order option \<times> error option" where
  "CompositeOrderStore_Get get [] orderID = (None, None)"
| "CompositeOrderStore_Get get (store # stores) orderID =
     (case get store orderID of
        (ord, err) \<Rightarrow>
          if err = None \<and> ord \<noteq> None then (ord, None)
          else CompositeOrderStore_Get get stores orderID)"

fun CompositeTradeStore_GetRecent ::
  "('s \<Rightarrow> int \<Rightarrow> Trade list \<times> error option) \<Rightarrow> 's list \<Rightarrow> int \<Rightarrow> Trade list \<times> error option" where
  "CompositeTradeStore_GetRecent getRecent [] limit = ([], None)"
| "CompositeTradeStore_GetRecent getRecent (store # stores) limit =
     (case getRecent store limit of
        (ts, err) \<Rightarrow>
          if err \<noteq> None then CompositeTradeStore_GetRecent getRecent stores limit
          else if length ts > 0 then (ts, None)
          else CompositeTradeStore_GetRecent getRecent stores limit)"

section \<open>Composite stores: what the write and read loops return\<close>

text \<open>The last entry of a list of results that is an error, \<open>None\<close> when there is none.\<close>

definition lastError :: "error option list \<Rightarrow> error option" where
  "lastError errs = (case filter (\<lambda>err. err \<noteq> None) errs of [] \<Rightarrow> None | e # es \<Rightarrow> last (e # es))"

lemma writeAll_eq:
  "writeAll call stores lastErr =
     (map (\<lambda>store. fst (call store)) stores,
      case filter (\<lambda>err. err \<noteq> None) (map (\<lambda>store. snd (call store)) stores) of
        [] \<Rightarrow> lastErr
      | e # es \<Rightarrow> last (e # es))"
proof (induction stores arbitrary: lastErr)
  case Nil
  show ?case by simp
next
  case (Cons store stores)
  obtain store' err where c: "call store = (store', err)"
    by (cases "call store")
  show ?case
  proof (cases "err = None")
    case True
    with c Cons show ?thesis by (simp split: prod.splits)
  next
    case False
    with c Cons show ?thesis by (simp split: prod.splits list.splits)
  qed
qed

lemma writeAll_None:
  "writeAll call stores None =
     (map (\<lambda>store. fst (call store)) stores, lastError (map (\<lambda>store. snd (call store)) stores))"
  by (simp add: writeAll_eq lastError_def)

lemma lastError_None_iff: "lastError errs = None \<longleftrightarrow> list_all (\<lambda>err. err = None) errs"
proof -
  have "filter (\<lambda>err. err \<noteq> None) errs = [] \<longleftrightarrow> list_all (\<lambda>err. err = None) errs"
    by (induction errs) auto
  moreover have "filter (\<lambda>err. err \<noteq> None) errs \<noteq> [] \<Longrightarrow> last (filter (\<lambda>err. err \<noteq> None) errs) \<noteq> None"
    using last_in_set [of "filter (\<lambda>err. err \<noteq> None) errs"] by auto
  ultimately show ?thesis
    by (auto simp: lastError_def split: list.splits)
qed

section \<open>Concrete orders, trades and stores used in the examples\<close>

definition NewOrder :: "uint64 \<Rightarrow> string \<Rightarrow> OrderType \<Rightarrow> SideType \<Rightarrow> real \<Rightarrow> int \<Rightarrow> nat \<Rightarrow> Order" where
  "NewOrder orderId userId orderType side price quantity now =
     \<lparr>ID = orderId, UserID = userId, Symbol = ''COOTX'', OrderType = orderType, Side = side,
      Order.Price = price, StopPrice = 0, Order.Size = quantity, TimeStamp = now\<rparr>"

definition sell1 :: Order where
  "sell1 = NewOrder 1 ''u1'' LimitOrder Sell 101 10 0"

definition emptyOrderStore :: InMemoryOrderStore where
  "emptyOrderStore = NewInMemoryOrderStore 10"

definition orderStoreWith1 :: InMemoryOrderStore where
  "orderStoreWith1 = fst (InMemoryOrderStore_Save (NewInMemoryOrderStore 10) sell1)"

definition trade1 :: Trade where
  "trade1 = \<lparr>TradeID = 0, BuyOrderID = 1, SellOrderID = 101, Price = 100, Size = 10\<rparr>"

definition trade2 :: Trade where
  "trade2 = \<lparr>TradeID = 0, BuyOrderID = 2, SellOrderID = 102, Price = 100, Size = 10\<rparr>"

definition tradeStore12 :: InMemoryTradeStore where
  "tradeStore12 =
     fst (InMemoryTradeStore_Save (fst (InMemoryTradeStore_Save (NewInMemoryTradeStore 10) trade1)) trade2)"

lemma orderStoreWith1_orders: "orders orderStoreWith1 = [1 \<mapsto> sell1]"
  by (simp add: orderStoreWith1_def InMemoryOrderStore_Save_def NewInMemoryOrderStore_def
      sell1_def NewOrder_def Let_def)

lemma tradeStore12_trades: "trades tradeStore12 = [trade1, trade2]"
  by (simp add: tradeStore12_def InMemoryTradeStore_Save_def NewInMemoryTradeStore_def trim_def)

section \<open>C7: the composite write path\<close>

text \<open>
  C7, as the code has it: every composite write (order Save, Remove and Update, trade Save
  and SaveBatch) calls the method on every store in order and returns the last error any
  store reported. It reports success exactly when every store succeeded; a failure of one
  store is returned even when other stores succeeded.
\<close>

theorem composite_write_last_error:
  "CompositeOrderStore_Save save stores ord =
     (map (\<lambda>s. fst (save s ord)) stores, lastError (map (\<lambda>s. snd (save s ord)) stores))
   \<and> CompositeOrderStore_Remove remove stores orderID =
     (map (\<lambda>s. fst (remove s orderID)) stores, lastError (map (\<lambda>s. snd (remove s orderID)) stores))
   \<and> CompositeOrderStore_Update update stores ord =
     (map (\<lambda>s. fst (update s ord)) stores, lastError (map (\<lambda>s. snd (update s ord)) stores))
   \<and> CompositeTradeStore_Save saveT tstores trade =
     (map (\<lambda>s. fst (saveT s trade)) tstores, lastError (map (\<lambda>s. snd (saveT s trade)) tstores))
   \<and> CompositeTradeStore_SaveBatch saveB tstores ts =
     (map (\<lambda>s. fst (saveB s ts)) tstores, lastError (map (\<lambda>s. snd (saveB s ts)) tstores))
   \<and> (snd (CompositeOrderStore_Save save stores ord) = None
        \<longleftrightarrow> list_all (\<lambda>s. snd (save s ord) = None) stores)
   \<and> (snd (CompositeTradeStore_Save saveT tstores trade) = None
        \<longleftrightarrow> list_all (\<lambda>s. snd (saveT s trade) = None) tstores)"
  by (simp add: CompositeOrderStore_Save_def CompositeOrderStore_Remove_def
      CompositeOrderStore_Update_def CompositeTradeStore_Save_def
      CompositeTradeStore_SaveBatch_def writeAll_None lastError_None_iff list_all_iff)

theorem composite_write_last_error_witness:
  "CompositeOrderStore_Update InMemoryOrderStore_Update [orderStoreWith1, emptyOrderStore] sell1 =
     ([orderStoreWith1, emptyOrderStore], Some (OrderNotFound 1))"
proof -
  have u1: "InMemoryOrderStore_Update orderStoreWith1 sell1 = (orderStoreWith1, None)"
    by (simp add: InMemoryOrderStore_Update_def orderStoreWith1_orders)
       (simp add: sell1_def NewOrder_def)
  have u2: "InMemoryOrderStore_Update emptyOrderStore sell1 = (emptyOrderStore, Some (OrderNotFound 1))"
    by (simp add: InMemoryOrderStore_Update_def emptyOrderStore_def NewInMemoryOrderStore_def
        sell1_def NewOrder_def)
  from composite_write_last_error
    [where update = InMemoryOrderStore_Update and stores = "[orderStoreWith1, emptyOrderStore]"
       and ord = sell1]
  have "CompositeOrderStore_Update InMemoryOrderStore_Update [orderStoreWith1, emptyOrderStore] sell1 =
     (map (\<lambda>s. fst (InMemoryOrderStore_Update s sell1)) [orderStoreWith1, emptyOrderStore],
      lastError (map (\<lambda>s. snd (InMemoryOrderStore_Update s sell1)) [orderStoreWith1, emptyOrderStore]))"
    by blast
  then show ?thesis
    by (simp add: u1 u2 lastError_def)
qed

text \<open>
  C7 as stated fails: the first store rejects the update, the second store applies it,
  and the composite still returns the first store's error.
\<close>

theorem composite_write_counterexample:
  "snd (InMemoryOrderStore_Update orderStoreWith1 sell1) = None
   \<and> snd (CompositeOrderStore_Update InMemoryOrderStore_Update [emptyOrderStore, orderStoreWith1] sell1)
       = Some (OrderNotFound 1)"
proof -
  have u1: "InMemoryOrderStore_Update orderStoreWith1 sell1 = (orderStoreWith1, None)"
    by (simp add: InMemoryOrderStore_Update_def orderStoreWith1_orders)
       (simp add: sell1_def NewOrder_def)
  have u2: "InMemoryOrderStore_Update emptyOrderStore sell1 = (emptyOrderStore, Some (OrderNotFound 1))"
    by (simp add: InMemoryOrderStore_Update_def emptyOrderStore_def NewInMemoryOrderStore_def
        sell1_def NewOrder_def)
  show ?thesis
    by (simp add: CompositeOrderStore_Update_def u1 u2)
qed

section \<open>C8: the composite read path\<close>

text \<open>A layer's answer is a hit when it carries an order and no error.\<close>

definition isHit :: "Order option \<times> error option \<Rightarrow> bool" where
  "isHit r = (snd r = None \<and> fst r \<noteq> None)"

lemma CompositeOrderStore_Get_eq:
  "CompositeOrderStore_Get get stores orderID =
     (case filter isHit (map (\<lambda>s. get s orderID) stores) of
        [] \<Rightarrow> (None, None)
      | r # _ \<Rightarrow> (fst r, None))"
  by (induction stores) (auto simp: isHit_def split: prod.splits)

text \<open>
  C8, as the code has it: the layers are consulted in order and the composite returns the
  order of the first layer that answers with an order and without an error. A layer that
  returns NOT-FOUND successfully (no order, no error) is passed over exactly like a layer
  that returns an error, and the composite returns NOT-FOUND (no order, no error) only
  when no layer has a hit.
\<close>

theorem composite_get_first_hit:
  "CompositeOrderStore_Get get stores orderID =
     (case filter isHit (map (\<lambda>s. get s orderID) stores) of
        [] \<Rightarrow> (None, None)
      | r # _ \<Rightarrow> (fst r, None))
   \<and> (get s1 orderID = (None, None) \<longrightarrow>
        CompositeOrderStore_Get get (s1 # stores) orderID = CompositeOrderStore_Get get stores orderID)
   \<and> (get s1 orderID = (None, Some e) \<longrightarrow>
        CompositeOrderStore_Get get (s1 # stores) orderID = CompositeOrderStore_Get get stores orderID)"
  using CompositeOrderStore_Get_eq [of get stores orderID] by simp

text \<open>
  Two layers, each a composite over one in-memory store: the first holds nothing, the
  second holds order 1. The first layer answers NOT-FOUND without an error.
\<close>

theorem composite_get_first_hit_witness:
  "CompositeOrderStore_Get InMemoryOrderStore_Get [emptyOrderStore] 1 = (None, None)
   \<and> CompositeOrderStore_Get (CompositeOrderStore_Get InMemoryOrderStore_Get)
        [[emptyOrderStore], [orderStoreWith1]] 1
       = CompositeOrderStore_Get (CompositeOrderStore_Get InMemoryOrderStore_Get)
        [[orderStoreWith1]] 1"
proof -
  have g: "CompositeOrderStore_Get InMemoryOrderStore_Get [emptyOrderStore] 1 = (None, None)"
    by (simp add: InMemoryOrderStore_Get_def emptyOrderStore_def NewInMemoryOrderStore_def)
  from composite_get_first_hit
    [where get = "CompositeOrderStore_Get InMemoryOrderStore_Get" and ?s1.0 = "[emptyOrderStore]"
       and orderID = 1 and stores = "[[orderStoreWith1]]"] g
  show ?thesis by blast
qed

text \<open>
  C8 as stated fails: the first layer's NOT-FOUND is not authoritative, the composite goes
  on to the second layer and returns its order.
\<close>

theorem composite_get_counterexample:
  "CompositeOrderStore_Get InMemoryOrderStore_Get [emptyOrderStore] 1 = (None, None)
   \<and> CompositeOrderStore_Get (CompositeOrderStore_Get InMemoryOrderStore_Get)
        [[emptyOrderStore], [orderStoreWith1]] 1 = (Some sell1, None)"
  by (simp add: InMemoryOrderStore_Get_def emptyOrderStore_def NewInMemoryOrderStore_def
      orderStoreWith1_orders)

section \<open>The matching engine (package matching, Engine)\<close>

text \<open>
  The engine as \<open>NewEngineWithConfig\<close> builds it: the in-memory order store, and as trade
  store the composite over the in-memory store and the file store. The channels are not
  used by the calls modelled here.
\<close>

record Engine =
  orderBook :: OrderBook
  nextOrderID :: uint64
  orderStore :: InMemoryOrderStore
  tradeStore :: "TradeStore list"

definition NewEngineWithStores :: "InMemoryOrderStore \<Rightarrow> TradeStore list \<Rightarrow> Engine" where
  "NewEngineWithStores os ts =
     \<lparr>orderBook = NewOrderBook, nextOrderID = 1, orderStore = os, tradeStore = ts\<rparr>"

definition NewEngine :: Engine where
  "NewEngine =
     NewEngineWithStores (NewInMemoryOrderStore 100000)
       [MemoryStore (NewInMemoryTradeStore 1000), FileStore []]"

definition GenerateOrderID :: "Engine \<Rightarrow> Engine \<times> uint64" where
  "GenerateOrderID e = (e\<lparr>nextOrderID := nextOrderID e + 1\<rparr>, nextOrderID e + 1)"

definition TrackOrder :: "Engine \<Rightarrow> Order \<Rightarrow> Engine" where
  "TrackOrder e ord = e\<lparr>orderStore := fst (InMemoryOrderStore_Save (orderStore e) ord)\<rparr>"

definition UntrackOrder :: "Engine \<Rightarrow> uint64 \<Rightarrow> Engine" where
  "UntrackOrder e orderID = e\<lparr>orderStore := fst (InMemoryOrderStore_Remove (orderStore e) orderID)\<rparr>"

definition GetOrder :: "Engine \<Rightarrow> uint64 \<Rightarrow> Order option" where
  "GetOrder e orderID = fst (InMemoryOrderStore_Get (orderStore e) orderID)"

definition AddTradeToHistory :: "Engine \<Rightarrow> Trade \<Rightarrow> Engine" where
  "AddTradeToHistory e trade =
     e\<lparr>tradeStore := fst (CompositeTradeStore_Save TradeStore_Save (tradeStore e) trade)\<rparr>"

text \<open>\<open>slices.Reverse\<close> of what the store returned.\<close>

definition GetRecentTrades :: "Engine \<Rightarrow> int \<Rightarrow> Trade list" where
  "GetRecentTrades e limit =
     rev (fst (CompositeTradeStore_GetRecent TradeStore_GetRecent (tradeStore e) limit))"

section \<open>C9: recent trades\<close>

lemma InMemoryTradeStore_GetRecent_eq:
  "0 < limit \<Longrightarrow>
   InMemoryTradeStore_GetRecent s limit =
     (drop (length (trades s) - min (nat limit) (length (trades s))) (trades s), None)"
  by (auto simp: InMemoryTradeStore_GetRecent_def Let_def min_def)

lemma rev_drop_take: "rev (drop (length xs - n) xs) = take n (rev xs)"
  by (cases "n \<le> length xs") (simp_all add: rev_drop)

text \<open>
  C9, as the code has it: for every positive limit \<open>n\<close> the in-memory trade store returns
  the \<open>min n (number stored)\<close> most recently appended trades in the order they were
  appended, oldest first and the most recently appended trade last. The newest-first order
  is made by the engine: \<open>GetRecentTrades\<close> reverses what the store returned, so over the
  engine's composite of the in-memory store and the file store its first element is the
  most recently appended trade.
\<close>

theorem GetRecent_append_order:
  "0 < limit \<Longrightarrow>
   fst (InMemoryTradeStore_GetRecent s limit) =
     drop (length (trades s) - min (nat limit) (length (trades s))) (trades s)
   \<and> length (fst (InMemoryTradeStore_GetRecent s limit)) = min (nat limit) (length (trades s))
   \<and> (trades s \<noteq> [] \<longrightarrow> last (fst (InMemoryTradeStore_GetRecent s limit)) = last (trades s))
   \<and> GetRecentTrades (e\<lparr>tradeStore := [MemoryStore s, FileStore written]\<rparr>) limit =
       take (min (nat limit) (length (trades s))) (rev (trades s))"
proof -
  assume pos: "0 < limit"
  let ?n = "min (nat limit) (length (trades s))"
  have g: "InMemoryTradeStore_GetRecent s limit = (drop (length (trades s) - ?n) (trades s), None)"
    using pos by (rule InMemoryTradeStore_GetRecent_eq)
  have l: "trades s \<noteq> [] \<Longrightarrow> last (drop (length (trades s) - ?n) (trades s)) = last (trades s)"
    using pos by (simp add: min_def)
  have r: "GetRecentTrades (e\<lparr>tradeStore := [MemoryStore s, FileStore written]\<rparr>) limit =
       take ?n (rev (trades s))"
    using pos by (auto simp: GetRecentTrades_def g rev_drop_take)
  show ?thesis
    using l r by (simp add: g)
qed

theorem GetRecent_append_order_witness:
  "fst (InMemoryTradeStore_GetRecent tradeStore12 1) = [trade2]
   \<and> fst (InMemoryTradeStore_GetRecent tradeStore12 2) = [trade1, trade2]
   \<and> GetRecentTrades (NewEngine\<lparr>tradeStore := [MemoryStore tradeStore12, FileStore []]\<rparr>) 2
       = [trade2, trade1]"
proof -
  have a: "fst (InMemoryTradeStore_GetRecent tradeStore12 1) = [trade2]"
    using GetRecent_append_order [where limit = 1 and s = tradeStore12 and e = NewEngine and written = "[]"]
    by (simp add: tradeStore12_trades)
  have b: "fst (InMemoryTradeStore_GetRecent tradeStore12 2) = [trade1, trade2]
     \<and> GetRecentTrades (NewEngine\<lparr>tradeStore := [MemoryStore tradeStore12, FileStore []]\<rparr>) 2
       = [trade2, trade1]"
    using GetRecent_append_order [where limit = 2 and s = tradeStore12 and e = NewEngine and written = "[]"]
    by (simp add: tradeStore12_trades)
  from a b show ?thesis by simp
qed

text \<open>
  C9 as stated fails for the in-memory store: with \<open>trade1\<close> appended before \<open>trade2\<close>,
  the first element of \<open>GetRecent 2\<close> is \<open>trade1\<close>, the older of the two.
\<close>

theorem GetRecent_counterexample:
  "trades tradeStore12 = [trade1, trade2]
   \<and> hd (fst (InMemoryTradeStore_GetRecent tradeStore12 2)) = trade1
   \<and> trade1 \<noteq> trade2"
  by (simp add: InMemoryTradeStore_GetRecent_def tradeStore12_trades trade1_def trade2_def)

section \<open>Matching (Engine.PlaceOrder and what it calls)\<close>

definition createTrade :: "Order \<Rightarrow> Order \<Rightarrow> int \<Rightarrow> Trade" where
  "createTrade incoming opposite fillSize =
     (let trade = \<lparr>TradeID = 0, BuyOrderID = 0, SellOrderID = 0,
                   Price = Order.Price opposite, Size = fillSize\<rparr>
      in if Side incoming = Buy
         then trade\<lparr>BuyOrderID := ID incoming, SellOrderID := ID opposite\<rparr>
         else trade\<lparr>BuyOrderID := ID opposite, SellOrderID := ID incoming\<rparr>)"

text \<open>
  \<open>executeMarketOrder\<close> and \<open>executeLimitOrder\<close> choose their book functions by the side
  of the incoming order: a buy works against the asks, every other side against the bids.
\<close>

definition getBestPrice :: "Order \<Rightarrow> OrderBook \<Rightarrow> real \<times> Order list" where
  "getBestPrice incomingOrder = (if Side incomingOrder = Buy then GetBestAsk else GetBestBid)"

definition deleteOrder :: "Order \<Rightarrow> OrderBook \<Rightarrow> uint64 \<Rightarrow> OrderBook \<times> bool" where
  "deleteOrder incomingOrder = (if Side incomingOrder = Buy then DeleteAskOrder else DeleteBidOrder)"

definition addOrder :: "Order \<Rightarrow> OrderBook \<Rightarrow> Order \<Rightarrow> OrderBook" where
  "addOrder incomingOrder = (if Side incomingOrder = Buy then AddBidOrder else AddAskOrder)"

definition canMatch :: "Order \<Rightarrow> real \<Rightarrow> real \<Rightarrow> bool" where
  "canMatch incomingOrder limitPrice bestPrice =
     (if Side incomingOrder = Buy then limitPrice \<ge> bestPrice else limitPrice \<le> bestPrice)"

text \<open>The side of the book these functions read and change.\<close>

definition oppositeSide :: "Order \<Rightarrow> OrderBook \<Rightarrow> bookSide" where
  "oppositeSide incomingOrder book =
     (if Side incomingOrder = Buy then asks book else bids book)"

definition setOppositeSide :: "Order \<Rightarrow> bookSide \<Rightarrow> OrderBook \<Rightarrow> OrderBook" where
  "setOppositeSide incomingOrder bookSide book =
     (if Side incomingOrder = Buy then book\<lparr>asks := bookSide\<rparr> else book\<lparr>bids := bookSide\<rparr>)"

text \<open>
  The order store keeps the pointer it was given under the order's id, so a size written
  through that pointer shows in the store: the model copies the order into the store's
  entry for its id when there is one. \<open>setOppositeOrder\<close> is the write
  \<open>oppositeOrder.Size -= fillSize\<close>: the opposite order is the head of the block at the best
  price.
\<close>

definition writeThrough :: "InMemoryOrderStore \<Rightarrow> Order \<Rightarrow> InMemoryOrderStore" where
  "writeThrough s ord =
     (if orders s (ID ord) = None then s else s\<lparr>orders := (orders s)(ID ord \<mapsto> ord)\<rparr>)"

definition setOppositeOrder :: "Engine \<Rightarrow> Order \<Rightarrow> real \<Rightarrow> Order \<Rightarrow> Order list \<Rightarrow> Engine" where
  "setOppositeOrder e incomingOrder bestPrice oppositeOrder rest =
     e\<lparr>orderBook := setOppositeSide incomingOrder
          (DAList.update bestPrice (oppositeOrder # rest) (oppositeSide incomingOrder (orderBook e)))
          (orderBook e),
       orderStore := writeThrough (orderStore e) oppositeOrder\<rparr>"

text \<open>
  The body of both matching loops from \<open>oppositeOrder := orderBlock[0]\<close> on: the fill
  size, the trade, the two sizes, and the removal of an opposite order that is filled.
\<close>

definition fill ::
  "Order \<Rightarrow> real \<Rightarrow> Order \<Rightarrow> Order list \<Rightarrow> int \<Rightarrow> Engine \<Rightarrow> Trade list \<Rightarrow> int \<times> Engine \<times> Trade list" where
  "fill incomingOrder bestPrice oppositeOrder rest sizeRemaining e acc =
     (let fillSize = (if Order.Size oppositeOrder < sizeRemaining
                      then Order.Size oppositeOrder else sizeRemaining);
          trade = createTrade incomingOrder oppositeOrder fillSize;
          acc = acc @ [trade];
          sizeRemaining = sizeRemaining - fillSize;
          oppositeOrder = oppositeOrder\<lparr>Order.Size := Order.Size oppositeOrder - fillSize\<rparr>;
          e = setOppositeOrder e incomingOrder bestPrice oppositeOrder rest;
          e = (if Order.Size oppositeOrder = 0
               then UntrackOrder
                      (e\<lparr>orderBook := fst (deleteOrder incomingOrder (orderBook e) (ID oppositeOrder))\<rparr>)
                      (ID oppositeOrder)
               else e)
      in (sizeRemaining, e, acc))"

subsection \<open>What deleting an order does to the orders of a side\<close>

text \<open>The orders of a side, level after level; and a list without its first order of an id.\<close>

fun removeFirst :: "uint64 \<Rightarrow> Order list \<Rightarrow> Order list" where
  "removeFirst orderId [] = []"
| "removeFirst orderId (ord # rest) =
     (if ID ord = orderId then rest else ord # removeFirst orderId rest)"

definition resting :: "bookSide \<Rightarrow> Order list" where
  "resting bookSide = concat (map snd (DAList.impl_of bookSide))"

lemma findInBlock_None: "findInBlock b orderId i = None \<longleftrightarrow> orderId \<notin> ID ` set b"
  by (induction b arbitrary: i) auto

lemma removeFirst_absent: "orderId \<notin> ID ` set b \<Longrightarrow> removeFirst orderId b = b"
  by (induction b) auto

lemma removeFirst_append:
  "removeFirst orderId (b @ c) =
     (if orderId \<in> ID ` set b then removeFirst orderId b @ c else b @ removeFirst orderId c)"
  by (induction b) auto

lemma findInBlock_Some:
  "findInBlock b orderId i = Some (ord, j) \<Longrightarrow>
     i \<le> j \<and> j - i < length b \<and> b ! (j - i) = ord \<and> ID ord = orderId
     \<and> removeFirst orderId b = take (j - i) b @ drop (Suc (j - i)) b
     \<and> orderId \<notin> ID ` set (take (j - i) b)"
proof (induction b arbitrary: i)
  case Nil
  then show ?case by simp
next
  case (Cons a b)
  show ?case
  proof (cases "ID a = orderId")
    case True
    with Cons.prems show ?thesis by simp
  next
    case False
    with Cons.prems have f: "findInBlock b orderId (Suc i) = Some (ord, j)" by simp
    from Cons.IH [OF f] have ih: "Suc i \<le> j" "j - Suc i < length b" "b ! (j - Suc i) = ord"
      "ID ord = orderId" "removeFirst orderId b = take (j - Suc i) b @ drop (Suc (j - Suc i)) b"
      "orderId \<notin> ID ` set (take (j - Suc i) b)"
      by auto
    from ih(1) have e: "j - i = Suc (j - Suc i)" by arith
    show ?thesis using ih False by (auto simp: e)
  qed
qed

lemma findInBlock_SomeD: "findInBlock b orderId i = Some r \<Longrightarrow> orderId \<in> ID ` set b"
  using findInBlock_None [of b orderId i] by auto

lemma findInLevels_None:
  "findInLevels al orderId = None \<longleftrightarrow> orderId \<notin> ID ` set (concat (map snd al))"
  by (induction al) (auto simp: findInBlock_None split: option.splits dest!: findInBlock_SomeD)

lemma raw_delete_resting:
  assumes "distinct (map fst al)" and "findInLevels al orderId = Some (ord, p, j)"
  shows "\<exists>blk. map_of al p = Some blk \<and> j < length blk \<and> blk ! j = ord \<and> ID ord = orderId
           \<and> orderId \<notin> ID ` set (take j blk)
           \<and> concat (map snd (AList.update p (take j blk @ drop (Suc j) blk) al))
               = removeFirst orderId (concat (map snd al))"
  using assms
proof (induction al)
  case Nil
  then show ?case by simp
next
  case (Cons a al)
  obtain q b where a: "a = (q, b)" by (cases a)
  show ?case
  proof (cases "findInBlock b orderId 0")
    case None
    with Cons.prems a have f: "findInLevels al orderId = Some (ord, p, j)" by simp
    from Cons.prems a have d: "distinct (map fst al)" and q: "q \<notin> fst ` set al" by auto
    from Cons.IH [OF d f] obtain blk where blk: "map_of al p = Some blk" "j < length blk"
      "blk ! j = ord" "ID ord = orderId" "orderId \<notin> ID ` set (take j blk)"
      "concat (map snd (AList.update p (take j blk @ drop (Suc j) blk) al))
               = removeFirst orderId (concat (map snd al))"
      by blast
    from blk(1) have "p \<in> fst ` set al" by (metis map_of_eq_None_iff option.distinct(1))
    with q have pq: "p \<noteq> q" by auto
    from None have nb: "orderId \<notin> ID ` set b" by (simp add: findInBlock_None)
    show ?thesis using blk pq nb a by (auto simp: removeFirst_append)
  next
    case (Some r)
    then obtain ord' j' where r: "findInBlock b orderId 0 = Some (ord', j')" by (cases r) auto
    with Cons.prems a have e: "ord' = ord" "q = p" "j' = j" by auto
    from findInBlock_Some [OF r] e have fb: "j < length b" "b ! j = ord" "ID ord = orderId"
      "removeFirst orderId b = take j b @ drop (Suc j) b" "orderId \<notin> ID ` set (take j b)"
      by auto
    from fb(1,2,3) have "orderId \<in> ID ` set b" by (metis image_eqI nth_mem)
    then show ?thesis using fb a e by (auto simp: removeFirst_append)
  qed
qed

lemma raw_delete_empty_level:
  "distinct (map fst al) \<Longrightarrow> map_of al p = Some [] \<Longrightarrow>
   concat (map snd (AList.delete p al)) = concat (map snd al)"
proof (induction al)
  case Nil
  then show ?case by simp
next
  case (Cons a al)
  then show ?case
    by (cases a) (auto simp: delete_id image_iff dest: map_of_SomeD)
qed

lemma level_impl: "level bookSide p = (case map_of (DAList.impl_of bookSide) p of None \<Rightarrow> [] | Some b \<Rightarrow> b)"
  by (simp add: level_def lookup.rep_eq)

lemma resting_deleteFromSide:
  "resting (fst (deleteFromSide bookSide orderId)) = removeFirst orderId (resting bookSide)"
proof (cases "findOrderInBookSide bookSide orderId")
  case None
  then have "orderId \<notin> ID ` set (resting bookSide)"
    by (simp add: findOrderInBookSide_def findInLevels_None resting_def)
  with None show ?thesis by (simp add: deleteFromSide_def removeFirst_absent)
next
  case (Some r)
  then obtain ord p j where r: "findInLevels (DAList.impl_of bookSide) orderId = Some (ord, p, j)"
    by (cases r) (auto simp: findOrderInBookSide_def)
  from raw_delete_resting [OF _ r] obtain blk where
    blk: "map_of (DAList.impl_of bookSide) p = Some blk"
      "concat (map snd (AList.update p (take j blk @ drop (Suc j) blk) (DAList.impl_of bookSide)))
               = removeFirst orderId (concat (map snd (DAList.impl_of bookSide)))"
    by auto
  let ?blk' = "take j blk @ drop (Suc j) blk"
  let ?al' = "AList.update p ?blk' (DAList.impl_of bookSide)"
  have d: "distinct (map fst ?al')" by (simp add: distinct_update)
  have m: "map_of ?al' p = Some ?blk'" by (simp add: update_conv')
  have e: "?blk' = [] \<Longrightarrow> concat (map snd (AList.delete p ?al')) = concat (map snd ?al')"
    using raw_delete_empty_level [OF d] m by simp
  show ?thesis
    using r blk e
    by (auto simp: deleteFromSide_def findOrderInBookSide_def resting_def level_impl Let_def
        update.rep_eq delete.rep_eq)
qed

lemma length_removeFirst:
  "orderId \<in> ID ` set xs \<Longrightarrow> Suc (length (removeFirst orderId xs)) = length xs"
  by (induction xs) auto

lemma raw_update_split:
  "distinct (map fst al) \<Longrightarrow> map_of al p = Some blk \<Longrightarrow>
   \<exists>pre post. concat (map snd al) = pre @ blk @ post
      \<and> (\<forall>blk'. concat (map snd (AList.update p blk' al)) = pre @ blk' @ post)"
proof (induction al)
  case Nil
  then show ?case by simp
next
  case (Cons a al)
  obtain q b where a: "a = (q, b)" by (cases a)
  show ?case
  proof (cases "q = p")
    case True
    with Cons.prems a have "b = blk" by simp
    with True a show ?thesis by (intro exI [of _ "[]"] exI [of _ "concat (map snd al)"]) simp
  next
    case False
    with Cons.prems a have "distinct (map fst al)" "map_of al p = Some blk" by auto
    from Cons.IH [OF this] obtain pre post where
      pp: "concat (map snd al) = pre @ blk @ post"
      "\<forall>blk'. concat (map snd (AList.update p blk' al)) = pre @ blk' @ post"
      by blast
    with False a show ?thesis
      by (intro exI [of _ "b @ pre"] exI [of _ post]) simp
  qed
qed

lemma resting_update_split:
  assumes "DAList.lookup bookSide p = Some blk"
  shows "\<exists>pre post. resting bookSide = pre @ blk @ post
      \<and> (\<forall>blk'. resting (DAList.update p blk' bookSide) = pre @ blk' @ post)"
  using raw_update_split [of "DAList.impl_of bookSide" p blk] assms
  by (simp add: resting_def lookup.rep_eq update.rep_eq)

lemma oppositeSide_setOppositeSide [simp]:
  "oppositeSide incomingOrder (setOppositeSide incomingOrder bookSide book) = bookSide"
  by (simp add: oppositeSide_def setOppositeSide_def)

lemma deleteOrder_eq:
  "deleteOrder incomingOrder book orderId =
     (setOppositeSide incomingOrder (fst (deleteFromSide (oppositeSide incomingOrder book) orderId)) book,
      snd (deleteFromSide (oppositeSide incomingOrder book) orderId))"
  by (simp add: deleteOrder_def oppositeSide_def setOppositeSide_def DeleteAskOrder_def
      DeleteBidOrder_def split: prod.splits)

lemma orderBook_UntrackOrder [simp]: "orderBook (UntrackOrder e orderId) = orderBook e"
  by (simp add: UntrackOrder_def)

lemma orderBook_TrackOrder [simp]: "orderBook (TrackOrder e ord) = orderBook e"
  by (simp add: TrackOrder_def)

lemma getBestPrice_lookup:
  assumes "getBestPrice incomingOrder book = (bestPrice, oppositeOrder # rest)"
  shows "DAList.lookup (oppositeSide incomingOrder book) bestPrice = Some (oppositeOrder # rest)"
  using assms
  by (auto simp: getBestPrice_def oppositeSide_def GetBestAsk_def GetBestBid_def level_def Let_def
      split: if_splits option.splits)

subsection \<open>The matching loops and their termination\<close>

text \<open>
  Every iteration either uses up the incoming size or removes an order from the opposite
  side, so the loops end.
\<close>

definition loopMeasure :: "Order \<times> int \<times> Engine \<times> Trade list \<Rightarrow> nat" where
  "loopMeasure = (\<lambda>(incomingOrder, sizeRemaining, e, acc).
     if 0 < sizeRemaining
     then Suc (length (resting (oppositeSide incomingOrder (orderBook e)))) else 0)"

lemma oppositeSide_fill:
  assumes "DAList.lookup (oppositeSide incomingOrder (orderBook e)) bestPrice = Some (oppositeOrder # rest)"
    and "fill incomingOrder bestPrice oppositeOrder rest sizeRemaining e acc = (sizeRemaining', e', acc')"
  shows "\<exists>pre post. resting (oppositeSide incomingOrder (orderBook e)) = pre @ oppositeOrder # rest @ post
      \<and> resting (oppositeSide incomingOrder (orderBook e')) =
          (if Order.Size oppositeOrder \<le> sizeRemaining
           then removeFirst (ID oppositeOrder) (pre @ oppositeOrder\<lparr>Order.Size := 0\<rparr> # rest @ post)
           else pre @ oppositeOrder\<lparr>Order.Size := Order.Size oppositeOrder - sizeRemaining\<rparr> # rest @ post)"
proof -
  from resting_update_split [OF assms(1)] obtain pre post where
    pp: "resting (oppositeSide incomingOrder (orderBook e)) = pre @ (oppositeOrder # rest) @ post"
      "\<forall>blk'. resting (DAList.update bestPrice blk' (oppositeSide incomingOrder (orderBook e)))
          = pre @ blk' @ post"
    by blast
  show ?thesis
    using assms(2) pp
    by (intro exI [of _ pre] exI [of _ post])
       (auto simp: fill_def Let_def setOppositeOrder_def deleteOrder_eq resting_deleteFromSide)
qed

lemma fill_decreases:
  assumes "getBestPrice incomingOrder (orderBook e) = (bestPrice, oppositeOrder # rest)"
    and "fill incomingOrder bestPrice oppositeOrder rest sizeRemaining e acc = (sizeRemaining', e', acc')"
    and "0 < sizeRemaining"
  shows "loopMeasure (incomingOrder, sizeRemaining', e', acc') < loopMeasure (incomingOrder, sizeRemaining, e, acc)"
proof -
  from oppositeSide_fill [OF getBestPrice_lookup [OF assms(1)] assms(2)] obtain pre post where
    pp: "resting (oppositeSide incomingOrder (orderBook e)) = pre @ oppositeOrder # rest @ post"
      "resting (oppositeSide incomingOrder (orderBook e')) =
          (if Order.Size oppositeOrder \<le> sizeRemaining
           then removeFirst (ID oppositeOrder) (pre @ oppositeOrder\<lparr>Order.Size := 0\<rparr> # rest @ post)
           else pre @ oppositeOrder\<lparr>Order.Size := Order.Size oppositeOrder - sizeRemaining\<rparr> # rest @ post)"
    by blast
  show ?thesis
  proof (cases "Order.Size oppositeOrder < sizeRemaining")
    case True
    have "ID oppositeOrder \<in> ID ` set (pre @ oppositeOrder\<lparr>Order.Size := 0\<rparr> # rest @ post)"
      by (auto simp: image_iff intro: bexI [of _ "oppositeOrder\<lparr>Order.Size := 0\<rparr>"])
    from length_removeFirst [OF this] True pp assms(3) show ?thesis
      by (simp add: loopMeasure_def)
  next
    case False
    with assms(2) have "sizeRemaining' = 0" by (auto simp: fill_def Let_def)
    with assms(3) show ?thesis by (simp add: loopMeasure_def)
  qed
qed

lemma fill_decreases':
  assumes "(bestPrice, oppositeOrder # rest) = getBestPrice incomingOrder (orderBook e)"
    and "0 < sizeRemaining"
  shows "loopMeasure (incomingOrder, fill incomingOrder bestPrice oppositeOrder rest sizeRemaining e acc)
           < loopMeasure (incomingOrder, sizeRemaining, e, acc)"
proof -
  obtain s' e' acc' where f:
    "fill incomingOrder bestPrice oppositeOrder rest sizeRemaining e acc = (s', e', acc')"
    by (metis prod_cases3)
  from fill_decreases [OF assms(1) [symmetric] f assms(2)] f show ?thesis by simp
qed

function marketLoop :: "Order \<Rightarrow> int \<Rightarrow> Engine \<Rightarrow> Trade list \<Rightarrow> int \<times> Engine \<times> Trade list" where
  "marketLoop incomingOrder sizeRemaining e acc =
     (if sizeRemaining > 0 then
        (case getBestPrice incomingOrder (orderBook e) of
           (bestPrice, orderBlock) \<Rightarrow>
             (case orderBlock of
                [] \<Rightarrow> (sizeRemaining, e, acc)
              | oppositeOrder # rest \<Rightarrow>
                  (case fill incomingOrder bestPrice oppositeOrder rest sizeRemaining e acc of
                     (sizeRemaining', e', acc') \<Rightarrow> marketLoop incomingOrder sizeRemaining' e' acc')))
      else (sizeRemaining, e, acc))"
  by pat_completeness auto
termination
  by (relation "measure loopMeasure") (auto intro: fill_decreases')

function limitLoop :: "Order \<Rightarrow> int \<Rightarrow> Engine \<Rightarrow> Trade list \<Rightarrow> int \<times> Engine \<times> Trade list" where
  "limitLoop incomingOrder sizeRemaining e acc =
     (if sizeRemaining > 0 then
        (case getBestPrice incomingOrder (orderBook e) of
           (bestPrice, orderBlock) \<Rightarrow>
             (case orderBlock of
                [] \<Rightarrow> (sizeRemaining, e, acc)
              | oppositeOrder # rest \<Rightarrow>
                  if \<not> canMatch incomingOrder (Order.Price incomingOrder) bestPrice
                  then (sizeRemaining, e, acc)
                  else
                    (case fill incomingOrder bestPrice oppositeOrder rest sizeRemaining e acc of
                       (sizeRemaining', e', acc') \<Rightarrow> limitLoop incomingOrder sizeRemaining' e' acc')))
      else (sizeRemaining, e, acc))"
  by pat_completeness auto
termination
  by (relation "measure loopMeasure") (auto intro: fill_decreases')

declare marketLoop.simps [simp del] limitLoop.simps [simp del]

definition executeMarketOrder :: "Engine \<Rightarrow> Order \<Rightarrow> Engine \<times> Trade list" where
  "executeMarketOrder e incomingOrder =
     (case marketLoop incomingOrder (Order.Size incomingOrder) e [] of
        (sizeRemaining, e, acc) \<Rightarrow> (e, acc))"

definition executeLimitOrder :: "Engine \<Rightarrow> Order \<Rightarrow> Engine \<times> Trade list" where
  "executeLimitOrder e incomingOrder =
     (case limitLoop incomingOrder (Order.Size incomingOrder) e [] of
        (sizeRemaining, e, acc) \<Rightarrow>
          if sizeRemaining > 0 then
            (let incomingOrder = incomingOrder\<lparr>Order.Size := sizeRemaining\<rparr>
             in (e\<lparr>orderBook := addOrder incomingOrder (orderBook e) incomingOrder,
                   orderStore := writeThrough (orderStore e) incomingOrder\<rparr>, acc))
          else (UntrackOrder e (ID incomingOrder), acc))"

text \<open>\<open>Engine.CancelOrder\<close>; the name \<open>CancelOrder\<close> is the order type's.\<close>

definition Engine_CancelOrder :: "Engine \<Rightarrow> uint64 \<Rightarrow> Engine \<times> bool" where
  "Engine_CancelOrder e orderId =
     (case DeleteOrderById (orderBook e) orderId of
        (book, deleted) \<Rightarrow>
          (let e = e\<lparr>orderBook := book\<rparr>
           in (if deleted then UntrackOrder e orderId else e, deleted)))"

definition PlaceOrder :: "Engine \<Rightarrow> Order \<Rightarrow> Engine \<times> Trade list" where
  "PlaceOrder e incomingOrder =
     (let e = (if OrderType incomingOrder \<noteq> CancelOrder then TrackOrder e incomingOrder else e)
      in case OrderType incomingOrder of
           MarketOrder \<Rightarrow>
             (case executeMarketOrder e incomingOrder of
                (e, acc) \<Rightarrow>
                  (UntrackOrder (fold (\<lambda>trade e. AddTradeToHistory e trade) acc e) (ID incomingOrder),
                   acc))
         | LimitOrder \<Rightarrow>
             (case executeLimitOrder e incomingOrder of
                (e, acc) \<Rightarrow> (fold (\<lambda>trade e. AddTradeToHistory e trade) acc e, acc))
         | CancelOrder \<Rightarrow> (fst (Engine_CancelOrder e (ID incomingOrder)), [])
         | _ \<Rightarrow> (e, []))"


lemma limitLoop_stop: "\<not> 0 < sizeRemaining \<Longrightarrow> limitLoop incomingOrder sizeRemaining e acc = (sizeRemaining, e, acc)"
  by (simp add: limitLoop.simps)

lemma limitLoop_empty:
  "getBestPrice incomingOrder (orderBook e) = (bestPrice, []) \<Longrightarrow>
   limitLoop incomingOrder sizeRemaining e acc = (sizeRemaining, e, acc)"
  by (simp add: limitLoop.simps)

lemma limitLoop_nomatch:
  "getBestPrice incomingOrder (orderBook e) = (bestPrice, orderBlock) \<Longrightarrow>
   \<not> canMatch incomingOrder (Order.Price incomingOrder) bestPrice \<Longrightarrow>
   limitLoop incomingOrder sizeRemaining e acc = (sizeRemaining, e, acc)"
  by (simp add: limitLoop.simps split: list.splits)

lemma limitLoop_step:
  "0 < sizeRemaining \<Longrightarrow>
   getBestPrice incomingOrder (orderBook e) = (bestPrice, oppositeOrder # rest) \<Longrightarrow>
   canMatch incomingOrder (Order.Price incomingOrder) bestPrice \<Longrightarrow>
   limitLoop incomingOrder sizeRemaining e acc =
     (case fill incomingOrder bestPrice oppositeOrder rest sizeRemaining e acc of
        (sizeRemaining', e', acc') \<Rightarrow> limitLoop incomingOrder sizeRemaining' e' acc')"
  by (subst limitLoop.simps) simp




lemma limitLoop_unfold:
  "0 < sizeRemaining \<Longrightarrow>
   snd (getBestPrice incomingOrder (orderBook e)) \<noteq> [] \<Longrightarrow>
   canMatch incomingOrder (Order.Price incomingOrder) (fst (getBestPrice incomingOrder (orderBook e))) \<Longrightarrow>
   limitLoop incomingOrder sizeRemaining e acc =
     (case fill incomingOrder (fst (getBestPrice incomingOrder (orderBook e)))
             (hd (snd (getBestPrice incomingOrder (orderBook e))))
             (tl (snd (getBestPrice incomingOrder (orderBook e)))) sizeRemaining e acc of
        (sizeRemaining', e', acc') \<Rightarrow> limitLoop incomingOrder sizeRemaining' e' acc')"
  by (cases "getBestPrice incomingOrder (orderBook e)"; cases "snd (getBestPrice incomingOrder (orderBook e))")
     (simp_all add: limitLoop_step)

lemma limitLoop_break:
  "snd (getBestPrice incomingOrder (orderBook e)) = [] \<or>
   \<not> canMatch incomingOrder (Order.Price incomingOrder) (fst (getBestPrice incomingOrder (orderBook e))) \<Longrightarrow>
   limitLoop incomingOrder sizeRemaining e acc = (sizeRemaining, e, acc)"
  by (cases "getBestPrice incomingOrder (orderBook e)") (auto simp: limitLoop_empty limitLoop_nomatch)

subsection \<open>Both loops as one\<close>

text \<open>
  The two loops differ in the test that lets an iteration go on, so facts about both are
  proved once, for a loop with that test as a parameter.
\<close>

function matchLoop ::
  "(real \<Rightarrow> bool) \<Rightarrow> Order \<Rightarrow> int \<Rightarrow> Engine \<Rightarrow> Trade list \<Rightarrow> int \<times> Engine \<times> Trade list" where
  "matchLoop mayMatch incomingOrder sizeRemaining e acc =
     (if sizeRemaining > 0 then
        (case getBestPrice incomingOrder (orderBook e) of
           (bestPrice, orderBlock) \<Rightarrow>
             (case orderBlock of
                [] \<Rightarrow> (sizeRemaining, e, acc)
              | oppositeOrder # rest \<Rightarrow>
                  if \<not> mayMatch bestPrice
                  then (sizeRemaining, e, acc)
                  else
                    (case fill incomingOrder bestPrice oppositeOrder rest sizeRemaining e acc of
                       (sizeRemaining', e', acc') \<Rightarrow>
                         matchLoop mayMatch incomingOrder sizeRemaining' e' acc')))
      else (sizeRemaining, e, acc))"
  by pat_completeness auto
termination
  by (relation "measure (\<lambda>(mayMatch, rest). loopMeasure rest)") (auto intro: fill_decreases')

declare matchLoop.simps [simp del]

lemma marketLoop_matchLoop:
  "marketLoop incomingOrder sizeRemaining e acc = matchLoop (\<lambda>_. True) incomingOrder sizeRemaining e acc"
proof (induction incomingOrder sizeRemaining e acc rule: marketLoop.induct)
  case (1 incomingOrder sizeRemaining e acc)
  show ?case
    by (subst marketLoop.simps, subst matchLoop.simps)
       (auto split: prod.splits list.splits simp: 1)
qed

lemma limitLoop_matchLoop:
  "limitLoop incomingOrder sizeRemaining e acc =
     matchLoop (canMatch incomingOrder (Order.Price incomingOrder)) incomingOrder sizeRemaining e acc"
proof (induction incomingOrder sizeRemaining e acc rule: limitLoop.induct)
  case (1 incomingOrder sizeRemaining e acc)
  show ?case
    by (subst limitLoop.simps, subst matchLoop.simps)
       (auto split: prod.splits list.splits simp: 1)
qed

lemma matchLoop_rule:
  assumes init: "I sizeRemaining e acc"
    and step: "\<And>s e acc bp opp rest s' e' acc'.
       I s e acc \<Longrightarrow> 0 < s \<Longrightarrow> getBestPrice incomingOrder (orderBook e) = (bp, opp # rest) \<Longrightarrow>
       mayMatch bp \<Longrightarrow> fill incomingOrder bp opp rest s e acc = (s', e', acc') \<Longrightarrow> I s' e' acc'"
    and res: "matchLoop mayMatch incomingOrder sizeRemaining e acc = (s1, e1, acc1)"
  shows "I s1 e1 acc1 \<and>
     (s1 \<le> 0 \<or> snd (getBestPrice incomingOrder (orderBook e1)) = []
       \<or> \<not> mayMatch (fst (getBestPrice incomingOrder (orderBook e1))))"
  using init res step
proof (induction mayMatch incomingOrder sizeRemaining e acc rule: matchLoop.induct)
  case (1 mayMatch incomingOrder sizeRemaining e acc)
  note init = "1.prems"(1) and res = "1.prems"(2) and step = "1.prems"(3)
  show ?case
  proof (cases "0 < sizeRemaining")
    case False
    with init res show ?thesis by (simp add: matchLoop.simps)
  next
    case pos: True
    obtain bp blk where g: "getBestPrice incomingOrder (orderBook e) = (bp, blk)"
      by (cases "getBestPrice incomingOrder (orderBook e)")
    show ?thesis
    proof (cases blk)
      case Nil
      with init res g pos show ?thesis by (simp add: matchLoop.simps)
    next
      case (Cons opp rest)
      show ?thesis
      proof (cases "mayMatch bp")
        case False
        with init res g pos Cons show ?thesis by (simp add: matchLoop.simps)
      next
        case True
        obtain s' e' acc' where f: "fill incomingOrder bp opp rest sizeRemaining e acc = (s', e', acc')"
          by (metis prod_cases3)
        from res g pos Cons True f
        have r: "matchLoop mayMatch incomingOrder s' e' acc' = (s1, e1, acc1)"
          by (simp add: matchLoop.simps [of mayMatch incomingOrder sizeRemaining])
        have g': "getBestPrice incomingOrder (orderBook e) = (bp, opp # rest)"
          using g Cons by simp
        have i: "I s' e' acc'"
          using step [OF init pos g' True f] .
        show ?thesis
          by (rule "1.IH" [OF pos g [symmetric] Cons _ f [symmetric] refl i r step])
             (simp add: True)
      qed
    qed
  qed
qed

section \<open>C10: stop and no-action orders\<close>

definition stop3 :: Order where
  "stop3 = NewOrder 3 ''u3'' StopLimitOrder Buy 100 10 0"

lemma Save_then_Get: "orders (fst (InMemoryOrderStore_Save s ord)) (ID ord) = Some ord"
  by (simp add: InMemoryOrderStore_Save_def Let_def)

text \<open>
  C10: for an order whose type is STOP-MARKET, STOP-LIMIT or NO-OP, \<open>PlaceOrder\<close> returns
  no trades and leaves the book as it was; it saves the order in the order store and does
  not remove it, so \<open>GetOrder\<close> returns the order although the book does not hold it.
\<close>

theorem PlaceOrder_inert_order_types:
  assumes "OrderType ord = StopMarketOrder \<or> OrderType ord = StopLimitOrder
           \<or> OrderType ord = NoActionOrder"
  shows "snd (PlaceOrder e ord) = []
    \<and> orderBook (fst (PlaceOrder e ord)) = orderBook e
    \<and> orderStore (fst (PlaceOrder e ord)) = fst (InMemoryOrderStore_Save (orderStore e) ord)
    \<and> GetOrder (fst (PlaceOrder e ord)) (ID ord) = Some ord
    \<and> SearchById (orderBook (fst (PlaceOrder e ord))) (ID ord) = SearchById (orderBook e) (ID ord)"
proof -
  have p: "PlaceOrder e ord = (TrackOrder e ord, [])"
    using assms by (auto simp: PlaceOrder_def)
  have g: "GetOrder (TrackOrder e ord) (ID ord) = Some ord"
    by (simp add: GetOrder_def TrackOrder_def InMemoryOrderStore_Get_def Save_then_Get)
  show ?thesis
    by (simp add: p g) (simp add: TrackOrder_def)
qed

theorem PlaceOrder_inert_order_types_witness:
  "snd (PlaceOrder NewEngine stop3) = []
   \<and> orderBook (fst (PlaceOrder NewEngine stop3)) = NewOrderBook
   \<and> GetOrder (fst (PlaceOrder NewEngine stop3)) 3 = Some stop3
   \<and> SearchById (orderBook (fst (PlaceOrder NewEngine stop3))) 3 = None"
proof -
  have t: "OrderType stop3 = StopMarketOrder \<or> OrderType stop3 = StopLimitOrder
           \<or> OrderType stop3 = NoActionOrder"
    by (simp add: stop3_def NewOrder_def)
  have i: "ID stop3 = 3" by (simp add: stop3_def NewOrder_def)
  have s: "SearchById NewOrderBook 3 = None"
    by (simp add: SearchById_def NewOrderBook_def findOrderInBookSide_def empty.rep_eq)
  have b: "orderBook NewEngine = NewOrderBook"
    by (simp add: NewEngine_def NewEngineWithStores_def)
  from PlaceOrder_inert_order_types [OF t, of NewEngine] show ?thesis
    unfolding i b s by blast
qed

section \<open>Deleting and adding orders, level by level\<close>

definition bookOrders :: "OrderBook \<Rightarrow> Order list" where
  "bookOrders book = resting (bids book) @ resting (asks book)"

definition noEmptyLevels :: "bookSide \<Rightarrow> bool" where
  "noEmptyLevels bookSide = list_all (\<lambda>entry. snd entry \<noteq> []) (DAList.impl_of bookSide)"












section \<open>C5: cancellation\<close>




text \<open>Rules that evaluate the book and the engine on concrete inputs.\<close>

lemmas book_eval =
  getBestPrice_def GetBestAsk_def GetBestBid_def level_def lookup.rep_eq update.rep_eq
  empty.rep_eq delete.rep_eq alist_eq_iff Let_def NewOrderBook_def addOrder_def AddBidOrder_def
  AddAskOrder_def addToSide_def canMatch_def MaxFloat64_def setOppositeOrder_def
  setOppositeSide_def oppositeSide_def deleteOrder_def DeleteAskOrder_def DeleteBidOrder_def
  deleteFromSide_def findOrderInBookSide_def resting_def bookOrders_def noEmptyLevels_def

lemmas engine_eval =
  PlaceOrder_def TrackOrder_def UntrackOrder_def executeLimitOrder_def executeMarketOrder_def
  fill_def createTrade_def AddTradeToHistory_def NewEngine_def NewEngineWithStores_def
  limitLoop_break limitLoop_unfold limitLoop_stop






section \<open>C6: placing a resting limit order and cancelling it\<close>








lemma fold_AddTradeToHistory_orderBook [simp]:
  "orderBook (fold (\<lambda>trade e. AddTradeToHistory e trade) acc e) = orderBook e"
  by (induction acc arbitrary: e) (simp_all add: AddTradeToHistory_def)





section \<open>What one fill does\<close>

definition ownSide :: "Order \<Rightarrow> OrderBook \<Rightarrow> bookSide" where
  "ownSide incomingOrder book = (if Side incomingOrder = Buy then bids book else asks book)"

text \<open>The id of the resting order in a trade of an incoming order.\<close>

definition restingID :: "Order \<Rightarrow> Trade \<Rightarrow> uint64" where
  "restingID incomingOrder trade =
     (if Side incomingOrder = Buy then SellOrderID trade else BuyOrderID trade)"

definition fillSizeOf :: "Order \<Rightarrow> int \<Rightarrow> int" where
  "fillSizeOf oppositeOrder sizeRemaining =
     (if Order.Size oppositeOrder < sizeRemaining then Order.Size oppositeOrder else sizeRemaining)"

lemma fill_parts:
  assumes "fill incomingOrder bestPrice oppositeOrder rest sizeRemaining e acc = (s', e', acc')"
  shows "s' = sizeRemaining - fillSizeOf oppositeOrder sizeRemaining"
    and "acc' = acc @ [createTrade incomingOrder oppositeOrder (fillSizeOf oppositeOrder sizeRemaining)]"
    and "ownSide incomingOrder (orderBook e') = ownSide incomingOrder (orderBook e)"
    and "tradeStore e' = tradeStore e"
    and "oppositeSide incomingOrder (orderBook e') =
          (if Order.Size oppositeOrder \<le> sizeRemaining
           then fst (deleteFromSide
                  (DAList.update bestPrice (oppositeOrder\<lparr>Order.Size := 0\<rparr> # rest)
                     (oppositeSide incomingOrder (orderBook e)))
                  (ID oppositeOrder))
           else DAList.update bestPrice
                  (oppositeOrder\<lparr>Order.Size := Order.Size oppositeOrder - sizeRemaining\<rparr> # rest)
                  (oppositeSide incomingOrder (orderBook e)))"
  using assms
  by (auto simp: fill_def Let_def fillSizeOf_def setOppositeOrder_def deleteOrder_eq ownSide_def
      setOppositeSide_def oppositeSide_def UntrackOrder_def)

lemma createTrade_fields:
  "Trade.Price (createTrade incomingOrder oppositeOrder fillSize) = Order.Price oppositeOrder"
  "Trade.Size (createTrade incomingOrder oppositeOrder fillSize) = fillSize"
  "restingID incomingOrder (createTrade incomingOrder oppositeOrder fillSize) = ID oppositeOrder"
  "Side incomingOrder = Buy \<Longrightarrow>
     BuyOrderID (createTrade incomingOrder oppositeOrder fillSize) = ID incomingOrder
     \<and> SellOrderID (createTrade incomingOrder oppositeOrder fillSize) = ID oppositeOrder"
  "Side incomingOrder \<noteq> Buy \<Longrightarrow>
     BuyOrderID (createTrade incomingOrder oppositeOrder fillSize) = ID oppositeOrder
     \<and> SellOrderID (createTrade incomingOrder oppositeOrder fillSize) = ID incomingOrder"
  by (simp_all add: createTrade_def restingID_def Let_def)

text \<open>A trade of the incoming order against a resting order: the resting order's price,
  and the two ids placed by the incoming order's side.\<close>

definition tradeAgainst :: "Order \<Rightarrow> Trade \<Rightarrow> Order \<Rightarrow> bool" where
  "tradeAgainst incomingOrder trade restingOrder =
     (Trade.Price trade = Order.Price restingOrder
      \<and> (if Side incomingOrder = Buy
         then BuyOrderID trade = ID incomingOrder \<and> SellOrderID trade = ID restingOrder
         else BuyOrderID trade = ID restingOrder \<and> SellOrderID trade = ID incomingOrder))"

text \<open>Two orders that differ at most in size.\<close>

definition sameOrder :: "Order \<Rightarrow> Order \<Rightarrow> bool" where
  "sameOrder a b = (a\<lparr>Order.Size := 0\<rparr> = b\<lparr>Order.Size := 0\<rparr>)"

lemma sameOrder_refl [simp]: "sameOrder a a"
  by (simp add: sameOrder_def)

lemma sameOrder_Size [simp]: "sameOrder (a\<lparr>Order.Size := n\<rparr>) b = sameOrder a b"
  by (simp add: sameOrder_def)

lemma sameOrder_fields: "sameOrder a b \<Longrightarrow> ID a = ID b \<and> Order.Price a = Order.Price b"
  by (cases a, cases b) (simp add: sameOrder_def)

lemma set_removeFirst: "set (removeFirst orderId xs) \<subseteq> set xs"
  by (induction xs) auto

text \<open>After a fill every order of the opposite side is an order that was there, up to size.\<close>

lemma fill_resting:
  assumes g: "getBestPrice incomingOrder (orderBook e) = (bestPrice, oppositeOrder # rest)"
    and f: "fill incomingOrder bestPrice oppositeOrder rest sizeRemaining e acc = (s', e', acc')"
  shows "oppositeOrder \<in> set (resting (oppositeSide incomingOrder (orderBook e)))"
    and "\<forall>r' \<in> set (resting (oppositeSide incomingOrder (orderBook e'))).
           \<exists>r \<in> set (resting (oppositeSide incomingOrder (orderBook e))). sameOrder r' r"
proof -
  from oppositeSide_fill [OF getBestPrice_lookup [OF g] f] obtain pre post where
    pp: "resting (oppositeSide incomingOrder (orderBook e)) = pre @ oppositeOrder # rest @ post"
      "resting (oppositeSide incomingOrder (orderBook e')) =
          (if Order.Size oppositeOrder \<le> sizeRemaining
           then removeFirst (ID oppositeOrder) (pre @ oppositeOrder\<lparr>Order.Size := 0\<rparr> # rest @ post)
           else pre @ oppositeOrder\<lparr>Order.Size := Order.Size oppositeOrder - sizeRemaining\<rparr> # rest @ post)"
    by blast
  show "oppositeOrder \<in> set (resting (oppositeSide incomingOrder (orderBook e)))"
    by (simp add: pp)
  show "\<forall>r' \<in> set (resting (oppositeSide incomingOrder (orderBook e'))).
           \<exists>r \<in> set (resting (oppositeSide incomingOrder (orderBook e))). sameOrder r' r"
  proof
    fix r' assume r': "r' \<in> set (resting (oppositeSide incomingOrder (orderBook e')))"
    have "r' \<in> set pre \<or> r' \<in> set rest \<or> r' \<in> set post \<or> sameOrder r' oppositeOrder"
    proof (cases "Order.Size oppositeOrder \<le> sizeRemaining")
      case True
      with r' pp(2) set_removeFirst [of "ID oppositeOrder" "pre @ oppositeOrder\<lparr>Order.Size := 0\<rparr> # rest @ post"]
      have "r' \<in> set (pre @ oppositeOrder\<lparr>Order.Size := 0\<rparr> # rest @ post)" by auto
      then show ?thesis by auto
    next
      case False
      with r' pp(2) show ?thesis by auto
    qed
    then show "\<exists>r \<in> set (resting (oppositeSide incomingOrder (orderBook e))). sameOrder r' r"
      unfolding pp(1) by (auto intro: bexI [of _ r'] bexI [of _ oppositeOrder])
  qed
qed

lemma sameOrder_trans: "sameOrder a b \<Longrightarrow> sameOrder b c \<Longrightarrow> sameOrder a c"
  by (simp add: sameOrder_def)

lemma tradeAgainst_createTrade:
  "sameOrder oppositeOrder r \<Longrightarrow> tradeAgainst incomingOrder (createTrade incomingOrder oppositeOrder n) r"
  using sameOrder_fields [of oppositeOrder r]
  by (simp add: tradeAgainst_def createTrade_def Let_def)

text \<open>
  What holds after any number of fills of a loop started at \<open>s0\<close>, \<open>e0\<close>, \<open>acc0\<close>: the new
  trades are trades against orders of the opposite side; that side only lost orders or
  size; the incoming order's own side and the trade store are untouched; the trades are
  appended and their sizes add up to what left the remaining size.
\<close>

definition loopInv ::
  "Order \<Rightarrow> int \<Rightarrow> Engine \<Rightarrow> Trade list \<Rightarrow> int \<Rightarrow> Engine \<Rightarrow> Trade list \<Rightarrow> bool" where
  "loopInv incomingOrder s0 e0 acc0 s e acc =
     ((\<forall>t \<in> set acc. t \<in> set acc0
          \<or> (\<exists>r \<in> set (resting (oppositeSide incomingOrder (orderBook e0))). tradeAgainst incomingOrder t r))
      \<and> (\<forall>r' \<in> set (resting (oppositeSide incomingOrder (orderBook e))).
           \<exists>r \<in> set (resting (oppositeSide incomingOrder (orderBook e0))). sameOrder r' r)
      \<and> ownSide incomingOrder (orderBook e) = ownSide incomingOrder (orderBook e0)
      \<and> tradeStore e = tradeStore e0
      \<and> (\<exists>new. acc = acc0 @ new \<and> s = s0 - sum_list (map Trade.Size new)))"

lemma loopInv_init: "loopInv incomingOrder s e acc s e acc"
  unfolding loopInv_def using sameOrder_refl by fastforce

lemma loopInv_step:
  assumes i: "loopInv incomingOrder s0 e0 acc0 s e acc"
    and g: "getBestPrice incomingOrder (orderBook e) = (bp, opp # rest)"
    and f: "fill incomingOrder bp opp rest s e acc = (s', e', acc')"
  shows "loopInv incomingOrder s0 e0 acc0 s' e' acc'"
proof -
  note p = fill_parts [OF f] and r = fill_resting [OF g f]
  from i r(1) obtain r0 where r0: "r0 \<in> set (resting (oppositeSide incomingOrder (orderBook e0)))"
    "sameOrder opp r0"
    by (auto simp: loopInv_def)
  have t: "\<forall>t \<in> set acc'. t \<in> set acc0
          \<or> (\<exists>r \<in> set (resting (oppositeSide incomingOrder (orderBook e0))). tradeAgainst incomingOrder t r)"
    using i r0 by (auto simp: loopInv_def p(2) intro: tradeAgainst_createTrade)
  have o: "\<forall>r' \<in> set (resting (oppositeSide incomingOrder (orderBook e'))).
           \<exists>r \<in> set (resting (oppositeSide incomingOrder (orderBook e0))). sameOrder r' r"
    using i r(2) unfolding loopInv_def by (meson sameOrder_trans)
  from i obtain new where n: "acc = acc0 @ new" "s = s0 - sum_list (map Trade.Size new)"
    by (auto simp: loopInv_def)
  have a: "\<exists>new. acc' = acc0 @ new \<and> s' = s0 - sum_list (map Trade.Size new)"
    by (rule exI [of _ "new @ [createTrade incomingOrder opp (fillSizeOf opp s)]"])
       (simp add: p(1,2) n createTrade_fields)
  show ?thesis
    using i t o a by (simp add: loopInv_def p(3,4))
qed

lemma matchLoop_loopInv:
  assumes "matchLoop mayMatch incomingOrder s e acc = (s1, e1, acc1)"
  shows "loopInv incomingOrder s e acc s1 e1 acc1"
    and "s1 \<le> 0 \<or> snd (getBestPrice incomingOrder (orderBook e1)) = []
       \<or> \<not> mayMatch (fst (getBestPrice incomingOrder (orderBook e1)))"
  using matchLoop_rule [where I = "loopInv incomingOrder s e acc", OF loopInv_init _ assms]
    loopInv_step
  by blast+

section \<open>C1: trade prices and ids\<close>

definition buy105 :: Order where
  "buy105 = NewOrder 2 ''u2'' LimitOrder Buy 105 10 0"

definition engineWithAsk :: Engine where
  "engineWithAsk = fst (PlaceOrder NewEngine sell1)"

lemma engineWithAsk_book:
  "DAList.impl_of (bids (orderBook engineWithAsk)) = []"
  "DAList.impl_of (asks (orderBook engineWithAsk)) = [(101, [sell1])]"
  by (simp_all add: engineWithAsk_def sell1_def NewOrder_def engine_eval book_eval)

lemma PlaceOrder_trades:
  "OrderType ord = LimitOrder \<Longrightarrow>
     snd (PlaceOrder e ord) = snd (snd (limitLoop ord (Order.Size ord) (TrackOrder e ord) []))"
  "OrderType ord = MarketOrder \<Longrightarrow>
     snd (PlaceOrder e ord) = snd (snd (marketLoop ord (Order.Size ord) (TrackOrder e ord) []))"
  by (simp_all add: PlaceOrder_def executeLimitOrder_def executeMarketOrder_def Let_def
      split: prod.splits)

text \<open>
  C1: every trade that \<open>PlaceOrder\<close> returns for a LIMIT or MARKET order was made against an
  order resting on the opposite side of the book: the trade's price is that resting order's
  price (not the incoming order's), and the buy and sell ids are the incoming and the
  resting order's ids, placed by the incoming order's side.
\<close>

theorem PlaceOrder_trade_price_and_ids:
  assumes "OrderType ord = LimitOrder \<or> OrderType ord = MarketOrder"
    and "t \<in> set (snd (PlaceOrder e ord))"
  shows "\<exists>r \<in> set (resting (oppositeSide ord (orderBook e))).
           Trade.Price t = Order.Price r
           \<and> (if Side ord = Buy
              then BuyOrderID t = ID ord \<and> SellOrderID t = ID r
              else BuyOrderID t = ID r \<and> SellOrderID t = ID ord)"
proof -
  obtain mayMatch s1 e1 where
    m: "matchLoop mayMatch ord (Order.Size ord) (TrackOrder e ord) [] = (s1, e1, snd (PlaceOrder e ord))"
  proof (cases "OrderType ord = LimitOrder")
    case True
    show ?thesis
      by (rule that [of "canMatch ord (Order.Price ord)"
            "fst (limitLoop ord (Order.Size ord) (TrackOrder e ord) [])"
            "fst (snd (limitLoop ord (Order.Size ord) (TrackOrder e ord) []))"])
         (simp add: PlaceOrder_trades(1) [OF True] limitLoop_matchLoop [symmetric])
  next
    case False
    with assms(1) have mk: "OrderType ord = MarketOrder" by simp
    show ?thesis
      by (rule that [of "\<lambda>_. True"
            "fst (marketLoop ord (Order.Size ord) (TrackOrder e ord) [])"
            "fst (snd (marketLoop ord (Order.Size ord) (TrackOrder e ord) []))"])
         (simp add: PlaceOrder_trades(2) [OF mk] marketLoop_matchLoop [symmetric])
  qed
  from matchLoop_loopInv(1) [OF m] assms(2)
  have "\<exists>r \<in> set (resting (oppositeSide ord (orderBook e))). tradeAgainst ord t r"
    by (auto simp: loopInv_def)
  then show ?thesis by (simp add: tradeAgainst_def)
qed

theorem PlaceOrder_trade_price_and_ids_witness:
  "snd (PlaceOrder engineWithAsk buy105)
     = [\<lparr>TradeID = 0, BuyOrderID = 2, SellOrderID = 1, Price = 101, Size = 10\<rparr>]
   \<and> (\<exists>r \<in> set (resting (oppositeSide buy105 (orderBook engineWithAsk))).
         (101::real) = Order.Price r \<and> ID buy105 = 2 \<and> ID r = 1)"
proof -
  have t: "snd (PlaceOrder engineWithAsk buy105)
     = [\<lparr>TradeID = 0, BuyOrderID = 2, SellOrderID = 1, Price = 101, Size = 10\<rparr>]"
    by (simp add: engineWithAsk_def sell1_def buy105_def NewOrder_def engine_eval book_eval)
  have k: "OrderType buy105 = LimitOrder \<or> OrderType buy105 = MarketOrder"
    by (simp add: buy105_def NewOrder_def)
  have b: "Side buy105 = Buy" by (simp add: buy105_def NewOrder_def)
  from PlaceOrder_trade_price_and_ids [OF k, of
      "\<lparr>TradeID = 0, BuyOrderID = 2, SellOrderID = 1, Price = 101, Size = 10\<rparr>" engineWithAsk]
  have "\<exists>r \<in> set (resting (oppositeSide buy105 (orderBook engineWithAsk))).
         (101::real) = Order.Price r \<and> ID buy105 = 2 \<and> ID r = 1"
    by (simp add: t b)
  with t show ?thesis by simp
qed

section \<open>Best prices of a well-formed book\<close>
















section \<open>The book stays well formed\<close>














lemma addOrder_Size [simp]: "addOrder (ord\<lparr>Order.Size := n\<rparr>) = addOrder ord"
  by (simp add: addOrder_def)



section \<open>C3: the book is never crossed between calls\<close>

datatype call = Place Order | Cancel uint64









section \<open>C4: market orders\<close>












end
